theory Spec2Isabelle
  imports Main "HOL-Library.Word" "HOL-Library.AList" "HOL-Library.List_Lexorder"
    "HOL-Library.Multiset"
begin

section \<open>Strings, runes and integers of the Go program\<close>

text \<open>
  Every string that \<open>main.go\<close> handles is produced by \<open>encoding/json\<close> or is a literal, so
  it is valid UTF-8 and is determined by its sequence of code points.  A Go \<open>string\<close> is
  therefore represented by the list of runes that \<open>for _, c := range s\<close> yields, a rune by
  its code point, \<open>s + t\<close> by \<open>s @ t\<close> and \<open>string(c)\<close> by \<open>[c]\<close>.
\<close>

type_synonym rune = nat
type_synonym gostring = "rune list"
type_synonym int64 = "64 word"

text \<open>The runes of an ASCII literal: one rune for each byte.\<close>

definition runes :: "string \<Rightarrow> gostring" where
  "runes s = map of_char s"

text \<open>
  \<open>len(s)\<close> counts the bytes of the UTF-8 encoding: one to four for each rune.
\<close>

definition utf8_len :: "rune \<Rightarrow> nat" where
  "utf8_len c = (if c < 128 then 1 else if c < 2048 then 2 else if c < 65536 then 3 else 4)"

definition golen :: "gostring \<Rightarrow> int" where
  "golen s = int (sum_list (map utf8_len s))"

text \<open>
  \<open>unicode.IsLetter\<close> and \<open>unicode.IsDigit\<close> belong to the Go standard library.  On ASCII
  they are the letters \<open>A-Z\<close>, \<open>a-z\<close> and the digits \<open>0-9\<close>; beyond ASCII they are read
  from the Unicode tables, which are a parameter of the model.
\<close>

record unicode =
  Letter :: "rune \<Rightarrow> bool"
  Digit :: "rune \<Rightarrow> bool"

definition IsLetter :: "unicode \<Rightarrow> rune \<Rightarrow> bool" where
  "IsLetter U c =
     (if c < 128 then (65 \<le> c \<and> c \<le> 90) \<or> (97 \<le> c \<and> c \<le> 122) else Letter U c)"

definition IsDigit :: "unicode \<Rightarrow> rune \<Rightarrow> bool" where
  "IsDigit U c = (if c < 128 then 48 \<le> c \<and> c \<le> 57 else Digit U c)"

text \<open>The test \<open>c == '_' || unicode.IsLetter(c) || unicode.IsDigit(c)\<close> of both scanners.\<close>

definition wordRune :: "unicode \<Rightarrow> rune \<Rightarrow> bool" where
  "wordRune U c = (c = 95 \<or> IsLetter U c \<or> IsDigit U c)"

text \<open>A table with no letters or digits beyond ASCII, to run the model on ASCII texts.\<close>

definition asciiOnly :: unicode where
  "asciiOnly = \<lparr>Letter = (\<lambda>c. False), Digit = (\<lambda>c. False)\<rparr>"

section \<open>Go maps\<close>

text \<open>
  A \<open>map[string]int64\<close> is an association list with distinct keys.  \<open>m[k]\<close> reads the
  zero value for a missing key, \<open>m[k] = v\<close> replaces or adds the entry.
\<close>

type_synonym gomap = "(gostring \<times> int64) list"

definition index :: "gomap \<Rightarrow> gostring \<Rightarrow> int64" where
  "index m k = (case map_of m k of None \<Rightarrow> 0 | Some v \<Rightarrow> v)"

definition assign :: "gomap \<Rightarrow> gostring \<Rightarrow> int64 \<Rightarrow> gomap" where
  "assign m k v = AList.update k v m"

section \<open>The keyword table\<close>

definition defs :: "gostring list" where
  "defs = map runes
    [''for'', ''range'', ''import'', ''int'', ''if'', ''elif'', ''else'', ''in'', ''open'',
     ''sort'', ''sorted'', ''def'', ''print'', ''continue'', ''break'', ''return'', ''not'',
     ''del'', ''eval'', ''True'', ''False'', ''str'', ''while'', ''and'', ''as'', ''is'',
     ''or'', ''try'', ''except'', ''finally'', ''raise'', ''assert'', ''with'', ''lambda'',
     ''yield'', ''async'', ''await'', ''class'', ''from'', ''global'', ''nonlocal'', ''pass'',
     ''None'', ''abs'', ''all'', ''any'', ''ascii'', ''bin'', ''bool'', ''breakpoint'',
     ''bytearray'', ''bytes'', ''callable'', ''chr'', ''classmethod'', ''compile'',
     ''complex'', ''delattr'', ''dict'', ''dir'', ''divmod'', ''enumerate'', ''exec'',
     ''filter'', ''float'', ''format'', ''frozenset'', ''getattr'', ''globals'', ''hasattr'',
     ''hash'', ''help'', ''hex'', ''id'', ''input'', ''isinstance'', ''issubclass'', ''iter'',
     ''len'', ''list'', ''locals'', ''map'', ''max'', ''memoryview'', ''min'', ''next'',
     ''object'', ''oct'', ''pow'', ''property'', ''repr'', ''reversed'', ''round'', ''set'',
     ''setattr'', ''slice'', ''staticmethod'', ''sum'', ''super'', ''tuple'', ''type'',
     ''vars'', ''zip'', ''__import__'']"

text \<open>The loop of \<open>main\<close>: \<open>for _, d := range defs { defaultCompletions[d] = 11 }\<close>.\<close>

definition defaultCompletions :: gomap where
  "defaultCompletions = fold (\<lambda>d m. assign m d 11) defs []"

section \<open>getWords\<close>

text \<open>
  The loop of \<open>getWords\<close> over the runes of the text, with the map \<open>words\<close> and the buffer
  \<open>currentword\<close> as its state, and the flush after the loop.
\<close>

fun getWords_loop :: "unicode \<Rightarrow> rune list \<Rightarrow> gomap \<Rightarrow> gostring \<Rightarrow> gomap \<times> gostring" where
  "getWords_loop U [] words currentword = (words, currentword)"
| "getWords_loop U (c # cs) words currentword =
     (if wordRune U c then getWords_loop U cs words (currentword @ [c])
      else if currentword \<noteq> [] \<and> index defaultCompletions currentword = 0
        then getWords_loop U cs (assign words currentword (index words currentword + 1)) []
        else getWords_loop U cs words [])"

definition getWords :: "unicode \<Rightarrow> gostring \<Rightarrow> gomap" where
  "getWords U text =
     (case getWords_loop U text [] [] of (words, currentword) \<Rightarrow>
        if currentword \<noteq> [] then assign words currentword (index words currentword + 1)
        else words)"

section \<open>Sort keys\<close>

text \<open>
  \<open>strconv.FormatInt(i, 10)\<close> of the Go standard library: the decimal digits of \<open>i\<close>, most
  significant first, after a minus sign when \<open>i\<close> is negative.
\<close>

fun formatNat :: "nat \<Rightarrow> gostring" where
  "formatNat n = (if n < 10 then [48 + n] else formatNat (n div 10) @ [48 + n mod 10])"

declare formatNat.simps [simp del]

definition FormatInt :: "int64 \<Rightarrow> gostring" where
  "FormatInt i = (if sint i < 0 then 45 # formatNat (nat (- sint i)) else formatNat (nat (sint i)))"

text \<open>
  \<open>padStart\<close> prepends \<open>pad\<close> while \<open>len(s) < length\<close> (the bound is \<open>len\<close> here).  With an empty \<open>pad\<close> the loop of
  the source never ends, so the result is optional and \<open>None\<close> is not returning.
\<close>

partial_function (option) padStart :: "gostring \<Rightarrow> gostring \<Rightarrow> int \<Rightarrow> gostring option" where
  "padStart s pad len = (if golen s < len then padStart (pad @ s) pad len else Some s)"

text \<open>The sort text of an entry: \<open>padStart(strconv.FormatInt(1000000-value, 10), "0", padLen)\<close>.\<close>

definition padLen :: int where
  "padLen = 6"

definition sortText :: "int64 \<Rightarrow> gostring option" where
  "sortText v = padStart (FormatInt (1000000 - v)) (runes ''0'') padLen"

section \<open>The cursor scan of the completion handler\<close>

text \<open>
  Lines 196 to 235 of \<open>Handle\<close>: the loop over the runes of the file content, with its five
  variables as the state, and the test after the loop.  \<open>break\<close> ends the recursion.
\<close>

record scan =
  curline :: int
  line_pos :: int
  curword :: gostring
  tocomplete :: gostring
  leadup :: "gostring list"

fun scan_loop :: "unicode \<Rightarrow> int \<Rightarrow> int \<Rightarrow> rune list \<Rightarrow> scan \<Rightarrow> scan" where
  "scan_loop U Line Character [] s = s"
| "scan_loop U Line Character (c # cs) s =
     (let s1 = s\<lparr>line_pos := line_pos s + 1\<rparr> in
      if c = 10 then
        (let s2 = (if curline s1 = Line \<and> line_pos s1 = Character
                   then s1\<lparr>tocomplete := curword s1\<rparr> else s1);
             s3 = s2\<lparr>curline := curline s2 + 1, line_pos := 0\<rparr>
         in if curline s3 > Line then s3 else scan_loop U Line Character cs s3)
      else if curline s1 = Line then
        (let s2 = (if wordRune U c then s1\<lparr>curword := curword s1 @ [c]\<rparr>
                   else if c = 46 then s1\<lparr>leadup := leadup s1 @ [curword s1], curword := []\<rparr>
                   else s1\<lparr>leadup := [], curword := []\<rparr>);
             s3 = (if line_pos s2 = Character then s2\<lparr>tocomplete := curword s2\<rparr> else s2)
         in scan_loop U Line Character cs s3)
      else scan_loop U Line Character cs s1)"

definition scan_init :: scan where
  "scan_init = \<lparr>curline = 0, line_pos = 0, curword = [], tocomplete = [], leadup = []\<rparr>"

definition resolve :: "unicode \<Rightarrow> gostring \<Rightarrow> int \<Rightarrow> int \<Rightarrow> gostring list \<times> gostring" where
  "resolve U filecontent Line Character =
     (let s = scan_loop U Line Character filecontent scan_init;
          s' = (if line_pos s + 1 = Character \<and> curline s = Line
                then s\<lparr>tocomplete := curword s\<rparr> else s)
      in (leadup s', tocomplete s'))"

text \<open>\<open>leadups\<close>: every segment of \<open>leadup\<close> followed by a dot.\<close>

definition leadups :: "gostring list \<Rightarrow> gostring" where
  "leadups ls = fold (\<lambda>li acc. acc @ li @ runes ''.'') ls []"

section \<open>Requests, replies and the document table\<close>

record CompletionItem =
  Label :: gostring
  Kind :: int
  InsertText :: gostring
  InsertTextFmt :: int
  SortText :: gostring

record OpenFile =
  uri :: gostring
  content :: gostring
  words :: gomap

type_synonym files = "gostring \<rightharpoonup> OpenFile"

record LogMessageParams =
  Type :: int
  Message :: gostring

text \<open>
  \<open>json.Unmarshal\<close> belongs to the standard library.  A request carries, for each of the four
  payload shapes that the handler decodes from \<open>*req.Params\<close>, what the decoding gives: an
  error with its text, or the fields read.  \<open>Params\<close> is a pointer and may be nil.
\<close>

datatype 'a unmarshal = UnmarshalError gostring | Unmarshalled 'a

record Params =
  textDocument_uri :: "gostring unmarshal"
  contentChanges :: "gostring list unmarshal"
  textDocument_text :: "gostring unmarshal"
  position :: "(int \<times> int) unmarshal"

datatype ID = ID (Num: "64 word") (Str: gostring) (IsString: bool)

record Request =
  Method :: gostring
  Params :: "Params option"
  ReqID :: ID

datatype result =
    InitializeResult "gostring list"
  | NullResult
  | CompletionResp bool "CompletionItem list"

datatype effect =
    Notify gostring LogMessageParams
  | Reply ID result
  | ReplyWithError ID int gostring

datatype panic = NilDereference | IndexOutOfRange

datatype outcome = Return files | Exit int | Panic panic

definition log :: "gostring \<Rightarrow> effect" where
  "log message = Notify (runes ''window/logMessage'') \<lparr>Type = 4, Message = message\<rparr>"

definition CodeParseError :: int where
  "CodeParseError = - 32700"

definition CodeMethodNotFound :: int where
  "CodeMethodNotFound = - 32601"

text \<open>
  \<open>getURI\<close> dereferences \<open>req.Params\<close>, which panics on nil, and replaces any decoding error
  by its own.
\<close>

definition getURI :: "Request \<Rightarrow> panic + (gostring \<times> gostring option)" where
  "getURI req =
     (case Params req of
        None \<Rightarrow> Inl NilDereference
      | Some p \<Rightarrow>
          (case textDocument_uri p of
             UnmarshalError e \<Rightarrow> Inr ([], Some (runes ''Failed to unmarshal payload''))
           | Unmarshalled u \<Rightarrow> Inr (u, None)))"

section \<open>The completion items\<close>

text \<open>
  One \<open>for key, value := range m\<close> loop of the completion handler over the entries of a map
  in the order the runtime visits them, appending to \<open>items\<close>.
\<close>

definition new_item :: "gostring \<Rightarrow> gostring \<Rightarrow> CompletionItem" where
  "new_item key st =
     \<lparr>Label = key, Kind = 3, InsertText = key, InsertTextFmt = 1, SortText = st\<rparr>"

fun range_items :: "gostring \<Rightarrow> gomap \<Rightarrow> CompletionItem list \<Rightarrow> CompletionItem list option" where
  "range_items tc [] items = Some items"
| "range_items tc ((key, v) # rest) items =
     (if key = tc then range_items tc rest items
      else case sortText v of
        None \<Rightarrow> None
      | Some st \<Rightarrow> range_items tc rest (items @ [new_item key st]))"

text \<open>
  Lines 245 to 255: the loop over \<open>file.words\<close>, then the loop over \<open>defaultCompletions\<close>.
  Go leaves the order in which \<open>range\<close> visits a map open; \<open>rangeOrder\<close> gives, for the
  entries of a map, the sequence in which one loop visits them.
\<close>

definition completion_items ::
  "(gomap \<Rightarrow> gomap) \<Rightarrow> gostring \<Rightarrow> gomap \<Rightarrow> CompletionItem list option" where
  "completion_items rangeOrder tc ws =
     (case range_items tc (rangeOrder ws) [] of
        None \<Rightarrow> None
      | Some items \<Rightarrow> range_items tc (rangeOrder defaultCompletions) items)"

text \<open>A visiting order is admissible when it visits every entry exactly once.\<close>

definition visits_all :: "(gomap \<Rightarrow> gomap) \<Rightarrow> bool" where
  "visits_all rangeOrder = (\<forall>m. mset (rangeOrder m) = mset m)"

section \<open>Handle\<close>

text \<open>
  The handler as a function of the request and of the global \<open>files\<close>.  It returns the
  messages sent on the connection, in order, and how the call ends: by returning with the
  new value of \<open>files\<close>, by \<open>os.Exit\<close>, or by a panic.  The result is \<open>None\<close> when the call
  does not end.  The three long cases of the \<open>switch\<close> come first, each as a function of
  its own.
\<close>

definition case_didChange :: "unicode \<Rightarrow> Request \<Rightarrow> files \<Rightarrow> (effect list \<times> outcome) option" where
  "case_didChange U req fs =
     (case getURI req of
        Inl p \<Rightarrow> Some ([], Panic p)
      | Inr (u, Some err) \<Rightarrow> Some ([log err], Return fs)
      | Inr (u, None) \<Rightarrow>
          (case Params req of
             None \<Rightarrow> Some ([], Panic NilDereference)
           | Some p \<Rightarrow>
               (case contentChanges p of
                  UnmarshalError e \<Rightarrow>
                    Some ([ReplyWithError (ReqID req) CodeParseError
                             (runes ''invalid change params: '' @ e)], Return fs)
                | Unmarshalled changes \<Rightarrow>
                    (case changes of
                       [] \<Rightarrow> Some ([], Panic IndexOutOfRange)
                     | t # _ \<Rightarrow>
                         Some ([], Return (fs(u \<mapsto>
                           \<lparr>uri = u, content = t, words = getWords U t\<rparr>)))))))"

definition case_didOpen :: "unicode \<Rightarrow> Request \<Rightarrow> files \<Rightarrow> (effect list \<times> outcome) option" where
  "case_didOpen U req fs =
     (case getURI req of
        Inl p \<Rightarrow> Some ([], Panic p)
      | Inr (u, Some err) \<Rightarrow> Some ([log err], Return fs)
      | Inr (u, None) \<Rightarrow>
          (case Params req of
             None \<Rightarrow> Some ([], Panic NilDereference)
           | Some p \<Rightarrow>
               (case textDocument_text p of
                  UnmarshalError e \<Rightarrow>
                    Some ([ReplyWithError (ReqID req) CodeParseError
                             (runes ''invalid open params: '' @ e)], Return fs)
                | Unmarshalled t \<Rightarrow>
                    Some ([], Return (fs(u \<mapsto>
                      \<lparr>uri = u, content = t, words = getWords U t\<rparr>))))))"

definition case_completion ::
  "unicode \<Rightarrow> (gomap \<Rightarrow> gomap) \<Rightarrow> Request \<Rightarrow> files \<Rightarrow> (effect list \<times> outcome) option" where
  "case_completion U rangeOrder req fs =
     (case getURI req of
        Inl p \<Rightarrow> Some ([], Panic p)
      | Inr (u, Some err) \<Rightarrow> Some ([log err], Return fs)
      | Inr (u, None) \<Rightarrow>
          (case fs u of
             None \<Rightarrow> Some ([log (runes ''FILE NOT OPEN'')], Return fs)
           | Some file \<Rightarrow>
               (case Params req of
                  None \<Rightarrow> Some ([], Panic NilDereference)
                | Some p \<Rightarrow>
                    (case position p of
                       UnmarshalError e \<Rightarrow>
                         Some ([ReplyWithError (ReqID req) CodeParseError
                                  (runes ''invalid completion params: '' @ e)], Return fs)
                     | Unmarshalled (Line, Character) \<Rightarrow>
                         (case resolve U (content file) Line Character of
                            (lu, tc) \<Rightarrow>
                              (case completion_items rangeOrder tc (words file) of
                                 None \<Rightarrow> None
                               | Some items \<Rightarrow>
                                   Some ([log (leadups lu @ tc),
                                          Reply (ReqID req) (CompletionResp False items)],
                                         Return fs)))))))"

definition Handle ::
  "unicode \<Rightarrow> (gomap \<Rightarrow> gomap) \<Rightarrow> Request \<Rightarrow> files \<Rightarrow> (effect list \<times> outcome) option" where
  "Handle U rangeOrder req fs =
    (if Method req = runes ''initialize'' then
       Some ([Reply (ReqID req) (InitializeResult [runes ''.'', runes '':''])], Return fs)
     else if Method req = runes ''initialized'' then
       Some ([log (runes ''Language server initialized successfully'')], Return fs)
     else if Method req = runes ''shutdown'' then
       Some ([Reply (ReqID req) NullResult], Return fs)
     else if Method req = runes ''exit'' then
       Some ([], Exit 0)
     else if Method req = runes ''workspace/didChangeConfiguration'' then
       Some ([log (runes ''Ack'')], Return fs)
     else if Method req = runes ''textDocument/didChange'' then
       case_didChange U req fs
     else if Method req = runes ''textDocument/didOpen'' then
       case_didOpen U req fs
     else if Method req = runes ''textDocument/didSave'' then
       Some ([], Return fs)
     else if Method req = runes ''textDocument/hover'' then
       Some ([], Return fs)
     else if Method req = runes ''textDocument/completion'' then
       case_completion U rangeOrder req fs
     else
       Some ([ReplyWithError (ReqID req) CodeMethodNotFound
                (runes ''method not found < '' @ Method req)], Return fs))"

section \<open>Serving a connection\<close>

text \<open>
  \<open>main\<close> starts with an empty \<open>files\<close> and the connection calls \<open>Handle\<close> for one request
  after the other.  A table is reachable when some sequence of requests leads to it.
\<close>

inductive reachable :: "unicode \<Rightarrow> files \<Rightarrow> bool" for U :: unicode where
  start: "reachable U Map.empty"
| handle: "reachable U fs \<Longrightarrow> Handle U rangeOrder req fs = Some (effs, Return fs') \<Longrightarrow>
           reachable U fs'"

fun serve ::
  "unicode \<Rightarrow> (gomap \<Rightarrow> gomap) \<Rightarrow> Request list \<Rightarrow> files \<Rightarrow> (effect list \<times> outcome) option" where
  "serve U rangeOrder [] fs = Some ([], Return fs)"
| "serve U rangeOrder (req # reqs) fs =
     (case Handle U rangeOrder req fs of
        None \<Rightarrow> None
      | Some (effs, Return fs') \<Rightarrow>
          (case serve U rangeOrder reqs fs' of
             None \<Rightarrow> None
           | Some (effs', out) \<Rightarrow> Some (effs @ effs', out))
      | Some (effs, out) \<Rightarrow> Some (effs, out))"

text \<open>The items of the completion replies among the messages sent.\<close>

fun reply_items :: "effect list \<Rightarrow> CompletionItem list" where
  "reply_items [] = []"
| "reply_items (Reply i (CompletionResp b items) # es) = items @ reply_items es"
| "reply_items (e # es) = reply_items es"

definition sent :: "(effect list \<times> outcome) option \<Rightarrow> effect list" where
  "sent r = (case r of None \<Rightarrow> [] | Some (effs, out) \<Rightarrow> effs)"

text \<open>
  The requests an editor sends: what the four decodings give on the JSON of a \<open>didOpen\<close>,
  a \<open>didChange\<close> and a \<open>completion\<close> message.  A field that the message does not have
  decodes to its zero value.
\<close>

definition didOpen_request :: "gostring \<Rightarrow> gostring \<Rightarrow> Request" where
  "didOpen_request u t =
     \<lparr>Method = runes ''textDocument/didOpen'',
      Params = Some \<lparr>textDocument_uri = Unmarshalled u, contentChanges = Unmarshalled [],
                     textDocument_text = Unmarshalled t, position = Unmarshalled (0, 0)\<rparr>,
      ReqID = ID 0 [] False\<rparr>"

definition didChange_request :: "gostring \<Rightarrow> gostring list \<Rightarrow> Request" where
  "didChange_request u changes =
     \<lparr>Method = runes ''textDocument/didChange'',
      Params = Some \<lparr>textDocument_uri = Unmarshalled u, contentChanges = Unmarshalled changes,
                     textDocument_text = Unmarshalled [], position = Unmarshalled (0, 0)\<rparr>,
      ReqID = ID 0 [] False\<rparr>"

definition completion_request :: "ID \<Rightarrow> gostring \<Rightarrow> int \<Rightarrow> int \<Rightarrow> Request" where
  "completion_request i u Line Character =
     \<lparr>Method = runes ''textDocument/completion'',
      Params = Some \<lparr>textDocument_uri = Unmarshalled u, contentChanges = Unmarshalled [],
                     textDocument_text = Unmarshalled [],
                     position = Unmarshalled (Line, Character)\<rparr>,
      ReqID = i\<rparr>"

text \<open>The method names that the \<open>switch\<close> of \<open>Handle\<close> has a case for.\<close>

definition recognized :: "gostring list" where
  "recognized = map runes
     [''initialize'', ''initialized'', ''shutdown'', ''exit'',
      ''workspace/didChangeConfiguration'', ''textDocument/didChange'',
      ''textDocument/didOpen'', ''textDocument/didSave'', ''textDocument/hover'',
      ''textDocument/completion'']"

text \<open>The decimal numeral of \<open>n\<close> on exactly \<open>w\<close> digits, with leading zeros.\<close>

fun fixed_digits :: "nat \<Rightarrow> nat \<Rightarrow> gostring" where
  "fixed_digits 0 n = []"
| "fixed_digits (Suc w) n = fixed_digits w (n div 10) @ [48 + n mod 10]"

text \<open>A string after as many \<open>0\<close> as its length is short of \<open>len\<close> bytes.\<close>

definition zero_padded :: "gostring \<Rightarrow> int \<Rightarrow> gostring" where
  "zero_padded s len = replicate (nat (len - golen s)) 48 @ s"

section \<open>The keyword table and the tokenizer\<close>

lemma distinct_defs: "distinct defs"
  by (simp add: defs_def runes_def)

lemma fold_assign_fresh:
  "distinct ds \<Longrightarrow> set ds \<inter> fst ` set m = {} \<Longrightarrow>
   fold (\<lambda>d m. assign m d v) ds m = m @ map (\<lambda>d. (d, v)) ds"
proof (induction ds arbitrary: m)
  case Nil
  then show ?case by simp
next
  case (Cons d ds)
  have "assign m d v = m @ [(d, v)]"
    using Cons.prems(2) by (induction m) (auto simp: assign_def)
  then show ?case using Cons by (auto simp: image_Un)
qed

lemma defaultCompletions_eq: "defaultCompletions = map (\<lambda>d. (d, 11)) defs"
  unfolding defaultCompletions_def using fold_assign_fresh [OF distinct_defs, of "[]" 11] by simp

lemma index_defaultCompletions: "index defaultCompletions k = (if k \<in> set defs then 11 else 0)"
  by (auto simp: index_def defaultCompletions_eq map_of_map_restrict restrict_map_def
      split: option.splits)

lemma wordRune_ascii:
  "c < 128 \<Longrightarrow>
   wordRune U c = (c = 95 \<or> (65 \<le> c \<and> c \<le> 90) \<or> (97 \<le> c \<and> c \<le> 122) \<or> (48 \<le> c \<and> c \<le> 57))"
  by (simp add: wordRune_def IsLetter_def IsDigit_def)

text \<open>
  C2.  A text that ends in a keyword with no delimiter after it: the flush after the loop
  counts the keyword \<open>for\<close>, which is a key of the keyword table, while the flush inside
  the loop leaves it out when a delimiter follows.
\<close>

theorem getWords_counts_trailing_keyword:
  "getWords U (runes ''for'') = [(runes ''for'', 1)]
   \<and> index defaultCompletions (runes ''for'') = 11
   \<and> getWords U (runes ''for '') = []"
proof -
  have "runes ''for'' \<in> set defs"
    by (simp add: defs_def)
  then have "index defaultCompletions (runes ''for'') = 11"
    by (simp add: index_defaultCompletions)
  moreover have "getWords U (runes ''for'') = [(runes ''for'', 1)]"
    by (simp add: getWords_def runes_def wordRune_ascii index_def assign_def)
  moreover have "getWords U (runes ''for '') = []"
    using \<open>index defaultCompletions (runes ''for'') = 11\<close>
    by (simp add: getWords_def runes_def wordRune_ascii)
  ultimately show ?thesis by simp
qed

section \<open>The cursor scan\<close>

lemma wordRune_not_dot: "\<not> wordRune U 46"
  by (simp add: wordRune_ascii)

lemma wordRune_not_newline: "\<not> wordRune U 10"
  by (simp add: wordRune_ascii)

text \<open>
  C6.  The two positions of the specification: the end of \<open>foo.bar.baz\<close>, and line 1,
  character 5 of the two lines \<open>x = 1\<close> and \<open>foo.b\<close>.
\<close>

theorem resolve_worked_examples:
  "resolve U (runes ''foo.bar.baz'') 0 11 = ([runes ''foo'', runes ''bar''], runes ''baz'')
   \<and> resolve U (runes ''x = 1'' @ [10] @ runes ''foo.b'') 1 5 = ([runes ''foo''], runes ''b'')"
  by (simp add: resolve_def scan_init_def runes_def wordRune_ascii Let_def)

lemma scan_loop_dot:
  "curline s = Line \<Longrightarrow>
   scan_loop U Line Character (46 # cs) s =
   scan_loop U Line Character cs
     (s\<lparr>line_pos := line_pos s + 1, leadup := leadup s @ [curword s], curword := [],
        tocomplete := (if line_pos s + 1 = Character then [] else tocomplete s)\<rparr>)"
  by (simp add: wordRune_not_dot Let_def)

lemma scan_loop_leadup_grows:
  "\<forall>c\<in>set cs. wordRune U c \<or> c = 46 \<Longrightarrow> curline s = Line \<Longrightarrow>
   \<exists>ys. leadup (scan_loop U Line Character cs s) = leadup s @ ys"
proof (induction cs arbitrary: s)
  case Nil
  then show ?case by simp
next
  case (Cons c cs)
  have c10: "c \<noteq> 10" using Cons.prems(1) wordRune_not_newline [of U] by auto
  show ?case
  proof (cases "wordRune U c")
    case True
    let ?s2 = "s\<lparr>line_pos := line_pos s + 1, curword := curword s @ [c]\<rparr>"
    let ?s3 = "if line_pos ?s2 = Character then ?s2\<lparr>tocomplete := curword ?s2\<rparr> else ?s2"
    have step: "scan_loop U Line Character (c # cs) s = scan_loop U Line Character cs ?s3"
      using True c10 Cons.prems(2) by (simp add: Let_def)
    have "curline ?s3 = Line" "leadup ?s3 = leadup s" using Cons.prems(2) by auto
    with Cons.IH [of ?s3] Cons.prems(1) step show ?thesis by auto
  next
    case False
    then have c: "c = 46" using Cons.prems(1) by auto
    let ?s3 = "s\<lparr>line_pos := line_pos s + 1, leadup := leadup s @ [curword s], curword := [],
        tocomplete := (if line_pos s + 1 = Character then [] else tocomplete s)\<rparr>"
    have step: "scan_loop U Line Character (c # cs) s = scan_loop U Line Character cs ?s3"
      unfolding c using scan_loop_dot [OF Cons.prems(2)] .
    have "curline ?s3 = Line" "leadup ?s3 = leadup s @ [curword s]" using Cons.prems(2) by auto
    with Cons.IH [of ?s3] Cons.prems(1) step show ?thesis by auto
  qed
qed

lemma resolve_leading_dot:
  assumes "\<forall>c\<in>set w. wordRune U c \<or> c = 46"
  shows "\<exists>ys. fst (resolve U (46 # w) 0 Character) = [] # ys"
proof -
  let ?s = "scan_init\<lparr>line_pos := 1, leadup := [[]], curword := [],
        tocomplete := (if 1 = Character then [] else [])\<rparr>"
  have "scan_loop U 0 Character (46 # w) scan_init = scan_loop U 0 Character w ?s"
    using scan_loop_dot [of scan_init 0 U Character w] by (simp add: scan_init_def)
  moreover have "\<exists>ys. leadup (scan_loop U 0 Character w ?s) = leadup ?s @ ys"
    by (rule scan_loop_leadup_grows [OF assms]) (simp add: scan_init_def)
  ultimately show ?thesis by (auto simp: resolve_def Let_def)
qed

text \<open>
  C10.  A dot on the target line appends the buffer to \<open>leadup\<close> whether or not the
  buffer is empty: \<open>a..b\<close> with the cursor after \<open>b\<close> gives the segments \<open>a\<close> and the
  empty string, every step on a dot appends \<open>curword\<close> as it is, and a target line that
  begins with a dot and goes on with word runes and dots has the empty string as its
  first segment.
\<close>

theorem leadup_keeps_empty_segments:
  "fst (resolve U (runes ''a..b'') 0 4) = [runes ''a'', []]
   \<and> (curline s = Line \<longrightarrow>
        scan_loop U Line Character (46 # cs) s =
        scan_loop U Line Character cs
          (s\<lparr>line_pos := line_pos s + 1, leadup := leadup s @ [curword s], curword := [],
             tocomplete := (if line_pos s + 1 = Character then [] else tocomplete s)\<rparr>))
   \<and> ((\<forall>c\<in>set w. wordRune U c \<or> c = 46) \<longrightarrow>
        (\<exists>ys. fst (resolve U (46 # w) 0 Character') = [] # ys))"
proof -
  have "fst (resolve U (runes ''a..b'') 0 4) = [runes ''a'', []]"
    by (simp add: resolve_def scan_init_def runes_def wordRune_ascii Let_def)
  then show ?thesis
    using scan_loop_dot [of s Line U Character cs] resolve_leading_dot [of w U Character']
    by blast
qed

theorem leadup_keeps_empty_segments_witness:
  "fst (resolve asciiOnly (runes ''a..b'') 0 4) = [runes ''a'', []]
   \<and> curline scan_init = 0
   \<and> scan_loop asciiOnly 0 2 (46 # runes ''b'') scan_init =
       scan_loop asciiOnly 0 2 (runes ''b'')
         (scan_init\<lparr>line_pos := 1, leadup := [[]], curword := [], tocomplete := []\<rparr>)
   \<and> fst (resolve asciiOnly (46 # runes ''.b'') 0 3) = [[], []]"
proof -
  have h1: "curline scan_init = 0" by (simp add: scan_init_def)
  have h2: "\<forall>c\<in>set (runes ''.b''). wordRune asciiOnly c \<or> c = 46"
    by (simp add: runes_def wordRune_ascii)
  note T = leadup_keeps_empty_segments [of asciiOnly scan_init 0 2 "runes ''b''" "runes ''.b''" 3]
  from T h1 have "scan_loop asciiOnly 0 2 (46 # runes ''b'') scan_init =
       scan_loop asciiOnly 0 2 (runes ''b'')
         (scan_init\<lparr>line_pos := 1, leadup := [[]], curword := [], tocomplete := []\<rparr>)"
    by (simp add: scan_init_def)
  moreover from T h2 obtain ys where "fst (resolve asciiOnly (46 # runes ''.b'') 0 3) = [] # ys"
    by blast
  moreover have "fst (resolve asciiOnly (46 # runes ''.b'') 0 3) = [[], []]"
    by (simp add: resolve_def scan_init_def runes_def wordRune_ascii Let_def)
  ultimately show ?thesis using T h1 by simp
qed

section \<open>The cases of Handle\<close>

text \<open>
  C8.  A method name outside the recognized set is answered by one error reply with the
  code \<open>CodeMethodNotFound\<close>, whose message ends with the method name and so contains it.
\<close>

theorem unknown_method_not_found:
  assumes "Method req \<notin> set recognized"
  shows "Handle U rangeOrder req fs =
           Some ([ReplyWithError (ReqID req) CodeMethodNotFound
                    (runes ''method not found < '' @ Method req)], Return fs)
         \<and> (\<exists>pre post. runes ''method not found < '' @ Method req = pre @ Method req @ post)"
proof -
  have "Handle U rangeOrder req fs =
           Some ([ReplyWithError (ReqID req) CodeMethodNotFound
                    (runes ''method not found < '' @ Method req)], Return fs)"
    using assms by (simp add: Handle_def recognized_def)
  moreover have "runes ''method not found < '' @ Method req
      = runes ''method not found < '' @ Method req @ []" by simp
  ultimately show ?thesis by blast
qed

theorem unknown_method_not_found_witness:
  "Handle asciiOnly id \<lparr>Method = runes ''foo/bar'', Params = None, ReqID = ID 7 [] False\<rparr> Map.empty =
     Some ([ReplyWithError (ID 7 [] False) CodeMethodNotFound
              (runes ''method not found < foo/bar'')], Return Map.empty)"
proof -
  have "runes ''foo/bar'' \<notin> set recognized"
    by (simp add: recognized_def runes_def)
  from unknown_method_not_found [of "\<lparr>Method = runes ''foo/bar'', Params = None, ReqID = ID 7 [] False\<rparr>" asciiOnly id Map.empty]
    this
  show ?thesis by (simp add: runes_def)
qed

text \<open>
  C9.  The \<open>didChange\<close> case reads \<open>ContentChanges[0]\<close> with no test of the length: on an
  empty array the read is out of range and the handler panics, on a non-empty array the
  text of the first entry is stored with its words, whatever follows it.
\<close>

theorem didChange_reads_first_change:
  assumes "Method req = runes ''textDocument/didChange''"
    and "Params req = Some p" and "textDocument_uri p = Unmarshalled u"
    and "contentChanges p = Unmarshalled changes"
  shows "(changes = [] \<longrightarrow> Handle U rangeOrder req fs = Some ([], Panic IndexOutOfRange))
       \<and> (\<forall>t rest. changes = t # rest \<longrightarrow>
            Handle U rangeOrder req fs =
              Some ([], Return (fs(u \<mapsto> \<lparr>uri = u, content = t, words = getWords U t\<rparr>))))"
  using assms by (simp add: Handle_def case_didChange_def getURI_def runes_def)

theorem didChange_reads_first_change_witness:
  "Handle asciiOnly id (didChange_request (runes ''file:///a.py'') []) Map.empty
     = Some ([], Panic IndexOutOfRange)
   \<and> Handle asciiOnly id (didChange_request (runes ''file:///a.py'') [runes ''x y'', runes ''z'']) Map.empty
     = Some ([], Return [runes ''file:///a.py'' \<mapsto>
         \<lparr>uri = runes ''file:///a.py'', content = runes ''x y'',
          words = getWords asciiOnly (runes ''x y'')\<rparr>])"
proof -
  have "Handle asciiOnly id (didChange_request (runes ''file:///a.py'') []) Map.empty
     = Some ([], Panic IndexOutOfRange)"
    using didChange_reads_first_change [of "didChange_request (runes ''file:///a.py'') []"
        _ "runes ''file:///a.py''" "[]" asciiOnly id Map.empty]
    by (simp add: didChange_request_def)
  moreover have "Handle asciiOnly id (didChange_request (runes ''file:///a.py'') [runes ''x y'', runes ''z'']) Map.empty
     = Some ([], Return [runes ''file:///a.py'' \<mapsto>
         \<lparr>uri = runes ''file:///a.py'', content = runes ''x y'',
          words = getWords asciiOnly (runes ''x y'')\<rparr>])"
    using didChange_reads_first_change [of "didChange_request (runes ''file:///a.py'') [runes ''x y'', runes ''z'']"
        _ "runes ''file:///a.py''" "[runes ''x y'', runes ''z'']" asciiOnly id Map.empty]
    by (simp add: didChange_request_def)
  ultimately show ?thesis by simp
qed

section \<open>Sort texts and completion items\<close>

lemma golen_Cons: "golen (c # s) = int (utf8_len c) + golen s"
  by (simp add: golen_def)

lemma padStart_zero: "padStart s (runes ''0'') n = Some (zero_padded s n)"
proof (induction "nat (n - golen s)" arbitrary: s)
  case 0
  then have "\<not> golen s < n" by simp
  with 0 show ?case by (subst padStart.simps) (simp add: zero_padded_def)
next
  case (Suc k)
  then have lt: "golen s < n" by simp
  have g: "golen (48 # s) = golen s + 1" by (simp add: golen_Cons utf8_len_def)
  have "k = nat (n - golen (48 # s))" using Suc.hyps(2) g by simp
  from Suc.hyps(1) [OF this]
  have "padStart (48 # s) (runes ''0'') n = Some (replicate k 48 @ 48 # s)"
    using \<open>k = nat (n - golen (48 # s))\<close> by (simp add: zero_padded_def)
  moreover have "padStart s (runes ''0'') n = padStart (48 # s) (runes ''0'') n"
    using lt by (subst padStart.simps) (simp add: runes_def)
  moreover have "replicate k 48 @ 48 # s = replicate (Suc k) (48::nat) @ s"
    by (simp add: replicate_app_Cons_same)
  ultimately show ?case using Suc.hyps(2) by (simp add: zero_padded_def)
qed

lemma sortText_eq: "sortText v = Some (zero_padded (FormatInt (1000000 - v)) padLen)"
  by (simp add: sortText_def padStart_zero)

lemma range_items_eq:
  "range_items tc m items =
     Some (items @ map (\<lambda>(k, v). new_item k (zero_padded (FormatInt (1000000 - v)) padLen))
                     (filter (\<lambda>(k, v). k \<noteq> tc) m))"
  by (induction tc m items rule: range_items.induct) (simp_all add: sortText_eq)

lemma completion_items_eq:
  "completion_items rangeOrder tc ws =
     Some (map (\<lambda>(k, v). new_item k (zero_padded (FormatInt (1000000 - v)) padLen))
             (filter (\<lambda>(k, v). k \<noteq> tc) (rangeOrder ws @ rangeOrder defaultCompletions)))"
  by (simp add: completion_items_def range_items_eq)

lemma completion_items_Label:
  "completion_items rangeOrder tc ws = Some items \<Longrightarrow> it \<in> set items \<Longrightarrow> Label it \<noteq> tc"
  by (auto simp: completion_items_eq new_item_def)

section \<open>The handler ends, and what its cases do\<close>

lemma Handle_completion:
  assumes "Method req = runes ''textDocument/completion''"
    and "Params req = Some p" and "textDocument_uri p = Unmarshalled u"
    and "fs u = Some file" and "position p = Unmarshalled (Line, Character)"
    and "resolve U (content file) Line Character = (lu, tc)"
  shows "Handle U rangeOrder req fs =
     Some ([log (leadups lu @ tc),
            Reply (ReqID req) (CompletionResp False
              (map (\<lambda>(k, v). new_item k (zero_padded (FormatInt (1000000 - v)) padLen))
                 (filter (\<lambda>(k, v). k \<noteq> tc)
                    (rangeOrder (words file) @ rangeOrder defaultCompletions))))],
           Return fs)"
  using assms
  by (simp add: Handle_def case_completion_def getURI_def runes_def completion_items_eq)

lemma case_didChange_total: "case_didChange U req fs \<noteq> None"
  by (simp add: case_didChange_def
      split: sum.splits option.splits unmarshal.splits list.splits prod.splits)

lemma case_didOpen_total: "case_didOpen U req fs \<noteq> None"
  by (simp add: case_didOpen_def
      split: sum.splits option.splits unmarshal.splits list.splits prod.splits)

lemma case_completion_total: "case_completion U rangeOrder req fs \<noteq> None"
  by (simp add: case_completion_def completion_items_eq
      split: sum.splits option.splits unmarshal.splits list.splits prod.splits)

lemma Handle_total: "Handle U rangeOrder req fs \<noteq> None"
  using case_didChange_total [of U req fs] case_didOpen_total [of U req fs]
    case_completion_total [of U rangeOrder req fs]
  by (simp add: Handle_def)

lemma case_didChange_no_items:
  "case_didChange U req fs = Some (effs, out) \<Longrightarrow> Reply i (CompletionResp b items) \<notin> set effs"
  by (auto simp: case_didChange_def log_def
      split: sum.splits option.splits unmarshal.splits list.splits prod.splits)

lemma case_didOpen_no_items:
  "case_didOpen U req fs = Some (effs, out) \<Longrightarrow> Reply i (CompletionResp b items) \<notin> set effs"
  by (auto simp: case_didOpen_def log_def
      split: sum.splits option.splits unmarshal.splits list.splits prod.splits)

lemma case_completion_items:
  assumes "case_completion U rangeOrder req fs = Some (effs, out)"
    and "Reply i (CompletionResp b items) \<in> set effs"
  shows "\<exists>p u file Line Character.
           Params req = Some p \<and> textDocument_uri p = Unmarshalled u \<and> fs u = Some file \<and>
           position p = Unmarshalled (Line, Character) \<and>
           (\<forall>it\<in>set items. Label it \<noteq> snd (resolve U (content file) Line Character))"
  using assms
  by (auto simp: case_completion_def getURI_def log_def
      split: sum.splits option.splits unmarshal.splits list.splits prod.splits
      dest: completion_items_Label)

text \<open>
  C3.  Whenever a call of \<open>Handle\<close> sends a completion reply, the request is a completion
  request for an open file with a decodable position, and no item of the reply has the
  word resolved at the cursor as its label: both loops skip that key.
\<close>

theorem completion_omits_partial:
  assumes "Handle U rangeOrder req fs = Some (effs, out)"
    and "Reply i (CompletionResp b items) \<in> set effs"
  shows "\<exists>p u file Line Character.
           Method req = runes ''textDocument/completion'' \<and> Params req = Some p \<and>
           textDocument_uri p = Unmarshalled u \<and> fs u = Some file \<and>
           position p = Unmarshalled (Line, Character) \<and>
           (\<forall>it\<in>set items. Label it \<noteq> snd (resolve U (content file) Line Character))"
proof -
  have m: "Method req = runes ''textDocument/completion''"
    and c: "case_completion U rangeOrder req fs = Some (effs, out)"
    using assms case_didChange_no_items [of U req fs effs out i b items]
      case_didOpen_no_items [of U req fs effs out i b items]
    by (auto simp: Handle_def log_def split: if_splits)
  from case_completion_items [OF c assms(2)] m show ?thesis by blast
qed

lemma case_didChange_inv:
  assumes "case_didChange U req fs = Some (effs, Return fs')"
    and "\<forall>u f. fs u = Some f \<longrightarrow> words f = getWords U (content f)"
  shows "\<forall>u f. fs' u = Some f \<longrightarrow> words f = getWords U (content f)"
  using assms
  by (auto simp: case_didChange_def
      split: sum.splits option.splits unmarshal.splits list.splits prod.splits if_splits)

lemma case_didOpen_inv:
  assumes "case_didOpen U req fs = Some (effs, Return fs')"
    and "\<forall>u f. fs u = Some f \<longrightarrow> words f = getWords U (content f)"
  shows "\<forall>u f. fs' u = Some f \<longrightarrow> words f = getWords U (content f)"
  using assms
  by (auto simp: case_didOpen_def
      split: sum.splits option.splits unmarshal.splits list.splits prod.splits if_splits)

lemma case_completion_files:
  "case_completion U rangeOrder req fs = Some (effs, Return fs') \<Longrightarrow> fs' = fs"
  by (auto simp: case_completion_def
      split: sum.splits option.splits unmarshal.splits list.splits prod.splits)

lemma Handle_inv:
  assumes "Handle U rangeOrder req fs = Some (effs, Return fs')"
    and "\<forall>u f. fs u = Some f \<longrightarrow> words f = getWords U (content f)"
  shows "\<forall>u f. fs' u = Some f \<longrightarrow> words f = getWords U (content f)"
proof -
  consider "fs' = fs" | "case_didChange U req fs = Some (effs, Return fs')"
    | "case_didOpen U req fs = Some (effs, Return fs')"
    using assms(1) case_completion_files [of U rangeOrder req fs effs fs']
    by (auto simp: Handle_def split: if_splits)
  then show ?thesis
  proof cases
    case 1
    then show ?thesis using assms(2) by simp
  next
    case 2
    then show ?thesis using case_didChange_inv assms(2) by blast
  next
    case 3
    then show ?thesis using case_didOpen_inv assms(2) by blast
  qed
qed

lemma reachable_inv:
  "reachable U fs \<Longrightarrow> \<forall>u f. fs u = Some f \<longrightarrow> words f = getWords U (content f)"
proof (induction rule: reachable.induct)
  case start
  then show ?case by simp
next
  case (handle fs rangeOrder req effs fs')
  then show ?case using Handle_inv by blast
qed

lemma Handle_didOpen:
  assumes "Method req = runes ''textDocument/didOpen''"
    and "Params req = Some p" and "textDocument_uri p = Unmarshalled u"
    and "textDocument_text p = Unmarshalled t"
  shows "Handle U rangeOrder req fs =
           Some ([], Return (fs(u \<mapsto> \<lparr>uri = u, content = t, words = getWords U t\<rparr>)))"
  using assms by (simp add: Handle_def case_didOpen_def getURI_def runes_def)

lemma Handle_didChange:
  assumes "Method req = runes ''textDocument/didChange''"
    and "Params req = Some p" and "textDocument_uri p = Unmarshalled u"
    and "contentChanges p = Unmarshalled (t # rest)"
  shows "Handle U rangeOrder req fs =
           Some ([], Return (fs(u \<mapsto> \<lparr>uri = u, content = t, words = getWords U t\<rparr>)))"
  using assms by (simp add: Handle_def case_didChange_def getURI_def runes_def)

theorem completion_omits_partial_witness:
  "snd (resolve asciiOnly (runes ''ab cd ab'') 0 2) = runes ''ab''
   \<and> map Label (reply_items (sent (Handle asciiOnly id
        (completion_request (ID 1 [] False) (runes ''file:///a.py'') 0 2)
        [runes ''file:///a.py'' \<mapsto>
           \<lparr>uri = runes ''file:///a.py'', content = runes ''ab cd ab'',
            words = [(runes ''ab'', 2), (runes ''cd'', 1)]\<rparr>])))
       = runes ''cd'' # defs
   \<and> runes ''ab'' \<notin> set (runes ''cd'' # defs)"
proof -
  let ?a = "runes ''file:///a.py''"
  let ?F = "\<lparr>uri = ?a, content = runes ''ab cd ab'',
            words = [(runes ''ab'', 2), (runes ''cd'', 1)]\<rparr>"
  let ?i = "ID 1 [] False"
  let ?req = "completion_request ?i ?a 0 2"
  let ?key = "\<lambda>(k, v). new_item k (zero_padded (FormatInt (1000000 - v)) padLen)"
  let ?items = "map ?key
     (filter (\<lambda>(k, v). k \<noteq> runes ''ab'') ([(runes ''ab'', 2), (runes ''cd'', 1)] @ defaultCompletions))"
  have res: "resolve asciiOnly (runes ''ab cd ab'') 0 2 = ([], runes ''ab'')"
    by (simp add: resolve_def scan_init_def runes_def wordRune_ascii Let_def)
  have h: "Handle asciiOnly id ?req [?a \<mapsto> ?F]
     = Some ([log (leadups [] @ runes ''ab''), Reply ?i (CompletionResp False ?items)],
             Return [?a \<mapsto> ?F])"
    using Handle_completion [of ?req "the (Params ?req)" ?a "[?a \<mapsto> ?F]" ?F 0 2 asciiOnly
        "[]" "runes ''ab''" id] res
    by (simp add: completion_request_def)
  have "Reply ?i (CompletionResp False ?items)
      \<in> set [log (leadups [] @ runes ''ab''), Reply ?i (CompletionResp False ?items)]"
    by simp
  from completion_omits_partial [OF h this]
  obtain p u fl Line Character where
    p: "Params ?req = Some p" and u: "textDocument_uri p = Unmarshalled u" and
    f: "[?a \<mapsto> ?F] u = Some fl" and pos: "position p = Unmarshalled (Line, Character)" and
    o: "\<forall>it\<in>set ?items. Label it \<noteq> snd (resolve asciiOnly (content fl) Line Character)"
    by blast
  have "u = ?a" using p u by (auto simp: completion_request_def)
  then have "fl = ?F" using f by simp
  moreover have "Line = 0 \<and> Character = 2" using p pos by (auto simp: completion_request_def)
  ultimately have "\<forall>it\<in>set ?items. Label it \<noteq> runes ''ab''"
    using o res by simp
  moreover have "\<And>(X :: CompletionItem list) c. \<forall>it\<in>set X. Label it \<noteq> c \<Longrightarrow> c \<notin> set (map Label X)"
    by auto
  ultimately have notin: "runes ''ab'' \<notin> set (map Label ?items)"
    by blast
  have ab: "runes ''ab'' \<notin> set defs"
    by (simp add: defs_def runes_def)
  have "filter (\<lambda>(k, v). k \<noteq> runes ''ab'') defaultCompletions = defaultCompletions"
    using ab by (auto simp: defaultCompletions_eq filter_id_conv)
  then have "map Label ?items = runes ''cd'' # defs"
    by (simp add: defaultCompletions_eq new_item_def runes_def comp_def)
  then show ?thesis using notin h res by (simp add: sent_def log_def)
qed

lemma index_Nil: "index [] k = 0"
  by (simp add: index_def)

lemma index_Cons: "index ((k', v) # m) k = (if k = k' then v else index m k)"
  by (simp add: index_def)

lemma getWords_cat_cat_dog:
  "getWords U (runes ''cat cat dog'') = [(runes ''cat'', 2), (runes ''dog'', 1)]"
  by (simp add: getWords_def runes_def wordRune_ascii index_defaultCompletions defs_def
      index_Nil index_Cons assign_def)

text \<open>
  C1.  In every table reachable from the empty one by calls of \<open>Handle\<close>, the \<open>words\<close> of
  each record are \<open>getWords\<close> of its \<open>content\<close>; and a \<open>didOpen\<close> or \<open>didChange\<close> whose
  URI and text decode stores, under the URI, the text with \<open>getWords\<close> of the text, which
  is what the lookup of that URI then finds.
\<close>

theorem words_are_getWords_of_content:
  "(reachable U fs \<longrightarrow> fs u = Some f \<longrightarrow> words f = getWords U (content f))
   \<and> (Method req = runes ''textDocument/didOpen'' \<and> Params req = Some p \<and>
       textDocument_uri p = Unmarshalled v \<and> textDocument_text p = Unmarshalled t \<longrightarrow>
       (\<exists>fs'. Handle U rangeOrder req fs0 = Some ([], Return fs') \<and>
              fs' = fs0(v \<mapsto> \<lparr>uri = v, content = t, words = getWords U t\<rparr>) \<and>
              fs' v = Some \<lparr>uri = v, content = t, words = getWords U t\<rparr>))
   \<and> (Method req = runes ''textDocument/didChange'' \<and> Params req = Some p \<and>
       textDocument_uri p = Unmarshalled v \<and> contentChanges p = Unmarshalled (t # rest) \<longrightarrow>
       (\<exists>fs'. Handle U rangeOrder req fs0 = Some ([], Return fs') \<and>
              fs' = fs0(v \<mapsto> \<lparr>uri = v, content = t, words = getWords U t\<rparr>) \<and>
              fs' v = Some \<lparr>uri = v, content = t, words = getWords U t\<rparr>))"
  using reachable_inv [of U fs]
    Handle_didOpen [of req p v t U rangeOrder fs0]
    Handle_didChange [of req p v t rest U rangeOrder fs0]
  by simp

theorem words_are_getWords_of_content_witness:
  "reachable asciiOnly
     [runes ''file:///a.py'' \<mapsto>
        \<lparr>uri = runes ''file:///a.py'', content = runes ''cat cat dog'',
         words = [(runes ''cat'', 2), (runes ''dog'', 1)]\<rparr>]
   \<and> [(runes ''cat'', 2), (runes ''dog'', 1)] = getWords asciiOnly (runes ''cat cat dog'')
   \<and> Handle asciiOnly id (didOpen_request (runes ''file:///a.py'') (runes ''cat cat dog'')) Map.empty
       = Some ([], Return [runes ''file:///a.py'' \<mapsto>
            \<lparr>uri = runes ''file:///a.py'', content = runes ''cat cat dog'',
             words = [(runes ''cat'', 2), (runes ''dog'', 1)]\<rparr>])
   \<and> Handle asciiOnly id (didChange_request (runes ''file:///a.py'') [runes ''for'']) Map.empty
       = Some ([], Return [runes ''file:///a.py'' \<mapsto>
            \<lparr>uri = runes ''file:///a.py'', content = runes ''for'',
             words = [(runes ''for'', 1)]\<rparr>])"
proof -
  let ?a = "runes ''file:///a.py''"
  let ?F = "\<lparr>uri = ?a, content = runes ''cat cat dog'',
         words = [(runes ''cat'', 2), (runes ''dog'', 1)]\<rparr>"
  let ?open = "didOpen_request ?a (runes ''cat cat dog'')"
  let ?change = "didChange_request ?a [runes ''for'']"
  note T1 = words_are_getWords_of_content
    [of asciiOnly "[?a \<mapsto> ?F]" ?a ?F ?open "the (Params ?open)" ?a "runes ''cat cat dog''"
        id Map.empty "[]"]
  note T2 = words_are_getWords_of_content
    [of asciiOnly "[?a \<mapsto> ?F]" ?a ?F ?change "the (Params ?change)" ?a "runes ''for''"
        id Map.empty "[]"]
  have w: "getWords asciiOnly (runes ''cat cat dog'') = [(runes ''cat'', 2), (runes ''dog'', 1)]"
    by (simp add: getWords_def runes_def wordRune_ascii index_defaultCompletions defs_def
      index_Nil index_Cons assign_def)
  have w2: "getWords asciiOnly (runes ''for'') = [(runes ''for'', 1)]"
    by (simp add: getWords_def runes_def wordRune_ascii index_def assign_def)
  have h1: "Handle asciiOnly id ?open Map.empty = Some ([], Return [?a \<mapsto> ?F])"
    using T1 w by (auto simp: didOpen_request_def)
  have h2: "Handle asciiOnly id ?change Map.empty
       = Some ([], Return [?a \<mapsto> \<lparr>uri = ?a, content = runes ''for'',
             words = [(runes ''for'', 1)]\<rparr>])"
    using T2 w2 by (auto simp: didChange_request_def)
  have r: "reachable asciiOnly [?a \<mapsto> ?F]"
    using reachable.handle [OF reachable.start h1] .
  have "words ?F = getWords asciiOnly (content ?F)"
    using T1 r by simp
  then show ?thesis using r h1 h2 by simp
qed


section \<open>The order of the sort texts\<close>

lemma length_fixed_digits: "length (fixed_digits w n) = w"
  by (induction w arbitrary: n) simp_all

lemma fixed_digits_zero: "fixed_digits w 0 = replicate w 48"
  by (induction w) (simp_all add: replicate_append_same)

lemma fixed_digits_less:
  "n < m \<Longrightarrow> m < 10 ^ w \<Longrightarrow> fixed_digits w n < fixed_digits w m"
proof (induction w arbitrary: n m)
  case 0
  then show ?case by simp
next
  case (Suc w)
  have m: "m div 10 < 10 ^ w" using Suc.prems(2) by (simp add: less_mult_imp_div_less)
  show ?case
  proof (cases "n div 10 < m div 10")
    case True
    from Suc.IH [OF True m]
    have "(fixed_digits w (n div 10), fixed_digits w (m div 10)) \<in> lexord {(u, v). u < v}"
      by (simp add: list_less_def)
    then have "(fixed_digits w (n div 10) @ [48 + n mod 10],
                fixed_digits w (m div 10) @ [48 + m mod 10]) \<in> lexord {(u, v). u < v}"
      by (rule lexord_sufI) (simp add: length_fixed_digits)
    then show ?thesis by (simp add: list_less_def)
  next
    case False
    then have eq: "n div 10 = m div 10" using Suc.prems(1) by (simp add: div_le_mono order_antisym)
    then have "n mod 10 < m mod 10" using Suc.prems(1)
      by (metis add_less_cancel_left mult_div_mod_eq)
    then have "([48 + n mod 10], [48 + m mod 10]) \<in> lexord {(u, v). u < v}"
      by simp
    then have "(fixed_digits w (m div 10) @ [48 + n mod 10],
                fixed_digits w (m div 10) @ [48 + m mod 10]) \<in> lexord {(u, v). u < v}"
      by (rule lexord_append_leftI)
    then show ?thesis using eq by (simp add: list_less_def)
  qed
qed

lemma formatNat_fixed:
  "n < 10 ^ w \<Longrightarrow> 0 < w \<Longrightarrow>
   length (formatNat n) \<le> w \<and>
   fixed_digits w n = replicate (w - length (formatNat n)) 48 @ formatNat n"
proof (induction n arbitrary: w rule: formatNat.induct)
  case (1 n)
  obtain w' where w: "w = Suc w'" using "1.prems"(2) by (cases w) auto
  show ?case
  proof (cases "n < 10")
    case True
    then have "formatNat n = [48 + n]" by (simp add: formatNat.simps)
    then show ?thesis using True w by (simp add: fixed_digits_zero)
  next
    case False
    then have f: "formatNat n = formatNat (n div 10) @ [48 + n mod 10]"
      by (subst formatNat.simps) simp
    have d: "n div 10 < 10 ^ w'" using "1.prems"(1) w by (simp add: less_mult_imp_div_less)
    have "0 < w'" using False "1.prems"(1) w by (cases w') auto
    from "1.IH" [OF False d this] show ?thesis using w f by (simp add: Suc_diff_le)
  qed
qed

lemma formatNat_ascii: "c \<in> set (formatNat n) \<Longrightarrow> c < 128"
proof (induction n rule: formatNat.induct)
  case (1 n)
  show ?case
  proof (cases "n < 10")
    case True
    then show ?thesis using "1.prems" by (simp add: formatNat.simps)
  next
    case False
    then have "formatNat n = formatNat (n div 10) @ [48 + n mod 10]"
      by (subst formatNat.simps) simp
    then show ?thesis using "1.IH" [OF False] "1.prems" by auto
  qed
qed

lemma golen_ascii: "\<forall>c\<in>set s. c < 128 \<Longrightarrow> golen s = int (length s)"
  by (induction s) (simp_all add: golen_def utf8_len_def)

lemma zero_padded_formatNat:
  assumes "n < 1000000"
  shows "zero_padded (formatNat n) padLen = fixed_digits 6 n"
proof -
  have "length (formatNat n) \<le> 6 \<and>
        fixed_digits 6 n = replicate (6 - length (formatNat n)) 48 @ formatNat n"
    using formatNat_fixed [of n 6] assms by simp
  moreover have "golen (formatNat n) = int (length (formatNat n))"
    using formatNat_ascii by (simp add: golen_ascii)
  ultimately show ?thesis by (simp add: zero_padded_def padLen_def nat_diff_distrib')
qed

lemma sint_million_minus:
  fixes c :: int64
  assumes "1 \<le> sint c" and "sint c \<le> 1000000"
  shows "sint (1000000 - c) = 1000000 - sint c"
proof -
  have "sint (1000000 - c) = signed_take_bit 63 (sint (1000000 :: int64) - sint c)"
    by (simp add: sint_word_diff)
  also have "sint (1000000 :: int64) = 1000000" by simp
  also have "signed_take_bit 63 (1000000 - sint c) = 1000000 - sint c"
    using assms by (intro signed_take_bit_int_eq_self) simp_all
  finally show ?thesis .
qed

lemma sortText_in_range:
  fixes c :: int64
  assumes "1 \<le> sint c" and "sint c \<le> 1000000"
  shows "sortText c = Some (fixed_digits 6 (nat (1000000 - sint c)))"
proof -
  have "FormatInt (1000000 - c) = formatNat (nat (1000000 - sint c))"
    using assms by (simp add: FormatInt_def sint_million_minus)
  moreover have "nat (1000000 - sint c) < 1000000" using assms by simp
  ultimately show ?thesis
    using padStart_zero [of "FormatInt (1000000 - c)" padLen] zero_padded_formatNat
    by (simp add: sortText_def)
qed


text \<open>Counts beyond the constant are reached by long texts.\<close>

lemma index_assign_same: "index (assign m k v) k = v"
  by (simp add: index_def assign_def update_conv')

lemma assign_assign: "assign (assign m k v) k v' = assign m k v'"
  by (induction m) (auto simp: assign_def)

lemma getWords_loop_word_space:
  assumes "wordRune U c" and "[c] \<notin> set defs"
  shows "getWords_loop U ([c, 32] @ rest) ws [] =
         getWords_loop U rest (assign ws [c] (index ws [c] + 1)) []"
  using assms by (simp add: wordRune_ascii index_defaultCompletions)

lemma getWords_loop_repeat:
  assumes "wordRune U c" and "[c] \<notin> set defs"
  shows "getWords_loop U (concat (replicate (Suc n) [c, 32]) @ rest) ws [] =
         getWords_loop U rest (assign ws [c] (index ws [c] + 1 + of_nat n)) []"
proof (induction n arbitrary: ws)
  case 0
  show ?case using getWords_loop_word_space [OF assms, of rest ws] by simp
next
  case (Suc n)
  have "getWords_loop U (concat (replicate (Suc (Suc n)) [c, 32]) @ rest) ws [] =
        getWords_loop U (concat (replicate (Suc n) [c, 32]) @ rest)
          (assign ws [c] (index ws [c] + 1)) []"
    using getWords_loop_word_space [OF assms, of "concat (replicate (Suc n) [c, 32]) @ rest" ws]
    by simp
  also have "\<dots> = getWords_loop U rest (assign ws [c] (index ws [c] + 1 + 1 + of_nat n)) []"
    by (simp only: Suc.IH index_assign_same assign_assign)
  also have "index ws [c] + 1 + 1 + of_nat n = index ws [c] + 1 + of_nat (Suc n)"
    by simp
  finally show ?case .
qed

lemma getWords_two_words:
  assumes "wordRune U a" and "[a] \<notin> set defs" and "wordRune U b" and "[b] \<notin> set defs"
    and "a \<noteq> b"
  shows "getWords U (concat (replicate (Suc n) [a, 32]) @ concat (replicate (Suc m) [b, 32]))
         = [([a], 1 + of_nat n), ([b], 1 + of_nat m)]"
proof -
  have "getWords_loop U
          (concat (replicate (Suc n) [a, 32]) @ concat (replicate (Suc m) [b, 32]) @ []) [] []
      = getWords_loop U (concat (replicate (Suc m) [b, 32]) @ [])
          (assign [] [a] (index [] [a] + 1 + of_nat n)) []"
    by (rule getWords_loop_repeat [OF assms(1,2)])
  also have "\<dots> = getWords_loop U []
          (assign (assign [] [a] (index [] [a] + 1 + of_nat n)) [b]
             (index (assign [] [a] (index [] [a] + 1 + of_nat n)) [b] + 1 + of_nat m)) []"
    by (rule getWords_loop_repeat [OF assms(3,4)])
  also have "\<dots> = ([([a], 1 + of_nat n), ([b], 1 + of_nat m)], [])"
    using assms(5) by (simp add: assign_def index_def)
  finally show ?thesis by (simp add: getWords_def)
qed

lemma big_document:
  "getWords asciiOnly
     (concat (replicate 1000002 (runes ''a '')) @ concat (replicate 1000001 (runes ''b '')))
   = [(runes ''a'', 1000002), (runes ''b'', 1000001)]"
proof -
  have a: "wordRune asciiOnly 97" "[97] \<notin> set defs" "wordRune asciiOnly 98" "[98] \<notin> set defs"
    by (simp_all add: wordRune_ascii defs_def runes_def)
  have "(97 :: nat) \<noteq> 98" by simp
  from getWords_two_words [OF a this, of 1000001 1000000]
  have "getWords asciiOnly
     (concat (replicate (Suc 1000001) [97, 32]) @ concat (replicate (Suc 1000000) [98, 32]))
   = [([97], 1 + of_nat 1000001), ([98], 1 + of_nat 1000000)]" .
  moreover have "Suc 1000001 = 1000002" "Suc 1000000 = 1000001" by simp_all
  moreover have "(1 + of_nat 1000001 :: int64) = 1000002" "(1 + of_nat 1000000 :: int64) = 1000001"
    by simp_all
  moreover have "runes ''a '' = [97, 32]" "runes ''b '' = [98, 32]" "runes ''a'' = [97]"
    "runes ''b'' = [98]" by (simp_all add: runes_def)
  ultimately show ?thesis by (simp only:)
qed

text \<open>
  C4 (as amended).  For two counts between 1 and 1000000, the sort text of the greater
  count is a string of six digits that is strictly smaller, in lexicographic order, than
  the sort text of the smaller count.
\<close>

theorem sortText_descending:
  fixes c1 c2 :: int64
  assumes "1 \<le> sint c2" and "sint c2 < sint c1" and "sint c1 \<le> 1000000"
  shows "\<exists>k1 k2. sortText c1 = Some k1 \<and> sortText c2 = Some k2 \<and>
                 length k1 = 6 \<and> length k2 = 6 \<and> k1 < k2"
proof -
  let ?n1 = "nat (1000000 - sint c1)" and ?n2 = "nat (1000000 - sint c2)"
  have "sortText c1 = Some (fixed_digits 6 ?n1)" "sortText c2 = Some (fixed_digits 6 ?n2)"
    using assms by (simp_all add: sortText_in_range)
  moreover have "?n1 < ?n2" "?n2 < 10 ^ 6" using assms by simp_all
  then have "fixed_digits 6 ?n1 < fixed_digits 6 ?n2" by (rule fixed_digits_less)
  ultimately show ?thesis by (simp add: length_fixed_digits)
qed

theorem sortText_descending_witness:
  "sortText 2 = Some (runes ''999998'') \<and> sortText 1 = Some (runes ''999999'')
   \<and> runes ''999998'' < runes ''999999''"
proof -
  have h: "1 \<le> sint (1 :: int64)" "sint (1 :: int64) < sint (2 :: int64)"
    "sint (2 :: int64) \<le> 1000000" by simp_all
  have k1: "sortText 2 = Some (runes ''999998'')" and k2: "sortText 1 = Some (runes ''999999'')"
    by (simp_all add: sortText_def padStart.simps FormatInt_def formatNat.simps runes_def
        golen_def utf8_len_def padLen_def)
  from sortText_descending [OF h] k1 k2 show ?thesis by auto
qed


text \<open>
  Beyond 1000000 the difference is negative and the order turns: a text with 1000002
  occurrences of \<open>a\<close> and 1000001 of \<open>b\<close> has these two counts in its map, and the sort
  text of the greater count, \<open>0000-2\<close>, is not smaller than \<open>0000-1\<close>, that of the smaller.
\<close>

theorem sortText_ascending_beyond_million:
  "getWords asciiOnly
     (concat (replicate 1000002 (runes ''a '')) @ concat (replicate 1000001 (runes ''b '')))
   = [(runes ''a'', 1000002), (runes ''b'', 1000001)]
   \<and> sint (1000001 :: int64) < sint (1000002 :: int64)
   \<and> sortText 1000002 = Some (runes ''0000-2'')
   \<and> sortText 1000001 = Some (runes ''0000-1'')
   \<and> \<not> runes ''0000-2'' < runes ''0000-1''"
proof -
  have "sint (1000001 :: int64) < sint (1000002 :: int64)
   \<and> sortText 1000002 = Some (runes ''0000-2'')
   \<and> sortText 1000001 = Some (runes ''0000-1'')
   \<and> \<not> runes ''0000-2'' < runes ''0000-1''"
    by (simp add: sortText_def padStart.simps FormatInt_def formatNat.simps runes_def
        golen_def utf8_len_def padLen_def)
  with big_document show ?thesis by (rule conjI)
qed

section \<open>The scenario of the text cat cat dog\<close>

lemma visits_all_set: "visits_all rangeOrder \<Longrightarrow> set (rangeOrder m) = set m"
  by (metis visits_all_def set_mset_mset)

lemma key_2: "zero_padded (FormatInt (1000000 - 2)) padLen = runes ''999998''"
  by (simp add: zero_padded_def FormatInt_def formatNat.simps runes_def golen_def utf8_len_def
      padLen_def)

lemma key_1: "zero_padded (FormatInt (1000000 - 1)) padLen = runes ''999999''"
  by (simp add: zero_padded_def FormatInt_def formatNat.simps runes_def golen_def utf8_len_def
      padLen_def)

lemma key_11: "zero_padded (FormatInt (1000000 - 11)) padLen = runes ''999989''"
  by (simp add: zero_padded_def FormatInt_def formatNat.simps runes_def golen_def utf8_len_def
      padLen_def)

lemma resolve_cat_cat_dog_end: "resolve U (runes ''cat cat dog'') 0 11 = ([], runes ''dog'')"
  by (simp add: resolve_def scan_init_def runes_def wordRune_ascii Let_def)

lemma resolve_cat_cat_dog_start: "resolve U (runes ''cat cat dog'') 0 0 = ([], [])"
  by (simp add: resolve_def scan_init_def runes_def wordRune_ascii Let_def)

lemma dog_not_keyword: "runes ''dog'' \<notin> set defs"
  by (simp add: defs_def runes_def)

lemma empty_not_keyword: "[] \<notin> set defs"
  by (simp add: defs_def runes_def)

lemma set_items:
  assumes "visits_all rangeOrder" and "tc \<notin> set defs"
  shows "set (map (\<lambda>(k, v). new_item k (zero_padded (FormatInt (1000000 - v)) padLen))
                 (filter (\<lambda>(k, v). k \<noteq> tc) (rangeOrder ws @ rangeOrder defaultCompletions)))
       = (\<lambda>(k, v). new_item k (zero_padded (FormatInt (1000000 - v)) padLen))
            ` {(k, v). (k, v) \<in> set ws \<and> k \<noteq> tc}
         \<union> (\<lambda>k. new_item k (runes ''999989'')) ` set defs"
proof -
  have "{x \<in> set defaultCompletions. case x of (k, v) \<Rightarrow> k \<noteq> tc} = set defaultCompletions"
    using assms(2) by (auto simp: defaultCompletions_eq)
  moreover have "(\<lambda>(k, v). new_item k (zero_padded (FormatInt (1000000 - v)) padLen))
      ` set defaultCompletions = (\<lambda>k. new_item k (runes ''999989'')) ` set defs"
    using key_11 by (auto simp: defaultCompletions_eq image_iff)
  ultimately show ?thesis
    using assms(1) by (auto simp: visits_all_set image_Un)
qed

text \<open>
  C5 (as amended).  After \<open>didOpen\<close> with the text \<open>cat cat dog\<close>, a completion request at
  the end of the text (line 0, character 11) resolves the word \<open>dog\<close>: the reply has the
  item of \<open>cat\<close> with sort text 999998 and the item of every keyword with sort text 999989,
  and no other item.  A request at line 0, character 0 resolves the empty word: the reply
  has the items of \<open>cat\<close> (999998), of \<open>dog\<close> (999999) and of every keyword (999989).  In
  the order of the sort texts the keywords come before \<open>cat\<close>, and \<open>cat\<close> before \<open>dog\<close>.
\<close>

theorem cat_cat_dog_completion:
  assumes "visits_all rangeOrder"
  shows "\<exists>fs1 items_end items_start.
     Handle U rangeOrder (didOpen_request u (runes ''cat cat dog'')) fs = Some ([], Return fs1)
   \<and> Handle U rangeOrder (completion_request i u 0 11) fs1
       = Some ([log (runes ''dog''), Reply i (CompletionResp False items_end)], Return fs1)
   \<and> set items_end = insert (new_item (runes ''cat'') (runes ''999998''))
                        ((\<lambda>k. new_item k (runes ''999989'')) ` set defs)
   \<and> Handle U rangeOrder (completion_request i u 0 0) fs1
       = Some ([log [], Reply i (CompletionResp False items_start)], Return fs1)
   \<and> set items_start = insert (new_item (runes ''cat'') (runes ''999998''))
                          (insert (new_item (runes ''dog'') (runes ''999999''))
                             ((\<lambda>k. new_item k (runes ''999989'')) ` set defs))
   \<and> runes ''999989'' < runes ''999998'' \<and> runes ''999998'' < runes ''999999''"
proof -
  let ?F = "\<lparr>uri = u, content = runes ''cat cat dog'',
             words = [(runes ''cat'', 2), (runes ''dog'', 1)]\<rparr>"
  let ?fs1 = "fs(u \<mapsto> ?F)"
  let ?key = "\<lambda>(k, v). new_item k (zero_padded (FormatInt (1000000 - v)) padLen)"
  let ?items = "\<lambda>tc. map ?key (filter (\<lambda>(k, v). k \<noteq> tc)
                   (rangeOrder (words ?F) @ rangeOrder defaultCompletions))"
  have o: "Handle U rangeOrder (didOpen_request u (runes ''cat cat dog'')) fs
      = Some ([], Return ?fs1)"
    using Handle_didOpen [of "didOpen_request u (runes ''cat cat dog'')" _ u
        "runes ''cat cat dog''" U rangeOrder fs]
    by (simp add: didOpen_request_def getWords_cat_cat_dog)
  have e: "Handle U rangeOrder (completion_request i u 0 11) ?fs1
      = Some ([log (runes ''dog''), Reply i (CompletionResp False (?items (runes ''dog'')))],
              Return ?fs1)"
    using Handle_completion [of "completion_request i u 0 11" _ u ?fs1 ?F 0 11 U "[]"
        "runes ''dog''" rangeOrder] resolve_cat_cat_dog_end [of U]
    by (simp add: completion_request_def leadups_def)
  have s: "Handle U rangeOrder (completion_request i u 0 0) ?fs1
      = Some ([log [], Reply i (CompletionResp False (?items []))], Return ?fs1)"
    using Handle_completion [of "completion_request i u 0 0" _ u ?fs1 ?F 0 0 U "[]" "[]"
        rangeOrder] resolve_cat_cat_dog_start [of U]
    by (simp add: completion_request_def leadups_def)
  have "{(k, v). (k, v) \<in> set (words ?F) \<and> k \<noteq> runes ''dog''} = {(runes ''cat'', 2)}"
    by (auto simp: runes_def)
  then have se: "set (?items (runes ''dog'')) = insert (new_item (runes ''cat'') (runes ''999998''))
                        ((\<lambda>k. new_item k (runes ''999989'')) ` set defs)"
    using key_2 set_items [OF assms dog_not_keyword, of "words ?F"] by simp
  have "{(k, v). (k, v) \<in> set (words ?F) \<and> k \<noteq> []}
      = {(runes ''cat'', 2), (runes ''dog'', 1)}"
    by (auto simp: runes_def)
  then have ss: "set (?items []) = insert (new_item (runes ''cat'') (runes ''999998''))
                          (insert (new_item (runes ''dog'') (runes ''999999''))
                             ((\<lambda>k. new_item k (runes ''999989'')) ` set defs))"
    using key_2 key_1 set_items [OF assms empty_not_keyword, of "words ?F"] by simp
  have "runes ''999989'' < runes ''999998''" "runes ''999998'' < runes ''999999''"
    by (simp_all add: runes_def)
  with o e se s ss show ?thesis by blast
qed

theorem cat_cat_dog_completion_witness:
  "map Label (reply_items (sent (Handle asciiOnly id
      (completion_request (ID 1 [] False) (runes ''file:///a.py'') 0 0)
      [runes ''file:///a.py'' \<mapsto>
         \<lparr>uri = runes ''file:///a.py'', content = runes ''cat cat dog'',
          words = [(runes ''cat'', 2), (runes ''dog'', 1)]\<rparr>])))
     = runes ''cat'' # runes ''dog'' # defs
   \<and> new_item (runes ''dog'') (runes ''999999'')
       \<in> set (reply_items (sent (Handle asciiOnly id
      (completion_request (ID 1 [] False) (runes ''file:///a.py'') 0 0)
      [runes ''file:///a.py'' \<mapsto>
         \<lparr>uri = runes ''file:///a.py'', content = runes ''cat cat dog'',
          words = [(runes ''cat'', 2), (runes ''dog'', 1)]\<rparr>])))"
proof -
  let ?a = "runes ''file:///a.py''"
  let ?i = "ID 1 [] False"
  let ?F = "\<lparr>uri = ?a, content = runes ''cat cat dog'',
             words = [(runes ''cat'', 2), (runes ''dog'', 1)]\<rparr>"
  let ?key = "\<lambda>(k, v). new_item k (zero_padded (FormatInt (1000000 - v)) padLen)"
  let ?items = "map ?key (filter (\<lambda>(k, v). k \<noteq> [])
                   ([(runes ''cat'', 2), (runes ''dog'', 1)] @ defaultCompletions))"
  have v: "visits_all id" by (simp add: visits_all_def)
  from cat_cat_dog_completion [OF v, of asciiOnly ?a Map.empty ?i]
  obtain fs1 items_end items_start where
    o: "Handle asciiOnly id (didOpen_request ?a (runes ''cat cat dog'')) Map.empty
        = Some ([], Return fs1)" and
    e: "Handle asciiOnly id (completion_request ?i ?a 0 11) fs1
        = Some ([log (runes ''dog''), Reply ?i (CompletionResp False items_end)], Return fs1)" and
    s: "Handle asciiOnly id (completion_request ?i ?a 0 0) fs1
        = Some ([log [], Reply ?i (CompletionResp False items_start)], Return fs1)" and
    ss: "set items_start = insert (new_item (runes ''cat'') (runes ''999998''))
                          (insert (new_item (runes ''dog'') (runes ''999999''))
                             ((\<lambda>k. new_item k (runes ''999989'')) ` set defs))"
    by blast
  have "fs1 = [?a \<mapsto> ?F]"
    using o Handle_didOpen [of "didOpen_request ?a (runes ''cat cat dog'')" _ ?a
        "runes ''cat cat dog''" asciiOnly id Map.empty]
    by (simp add: didOpen_request_def getWords_cat_cat_dog)
  with s have s': "Handle asciiOnly id (completion_request ?i ?a 0 0) [?a \<mapsto> ?F]
        = Some ([log [], Reply ?i (CompletionResp False items_start)], Return [?a \<mapsto> ?F])"
    by simp
  have d: "new_item (runes ''dog'') (runes ''999999'') \<in> set items_start"
    using ss by simp
  have "Handle asciiOnly id (completion_request ?i ?a 0 0) [?a \<mapsto> ?F]
        = Some ([log [], Reply ?i (CompletionResp False ?items)], Return [?a \<mapsto> ?F])"
    using Handle_completion [of "completion_request ?i ?a 0 0" _ ?a "[?a \<mapsto> ?F]" ?F 0 0
        asciiOnly "[]" "[]" id] resolve_cat_cat_dog_start [of asciiOnly]
    by (simp add: completion_request_def leadups_def)
  with s' have eq: "items_start = ?items" by simp
  have "filter (\<lambda>(k, v). k \<noteq> []) defaultCompletions = defaultCompletions"
    using empty_not_keyword by (auto simp: defaultCompletions_eq filter_id_conv)
  then have "map Label ?items = runes ''cat'' # runes ''dog'' # defs"
    by (simp add: defaultCompletions_eq new_item_def runes_def comp_def)
  with eq d s' show ?thesis by (simp add: sent_def log_def)
qed

text \<open>
  At the end of the text the resolved word is \<open>dog\<close>, not the empty word, and the labels of
  the reply are \<open>cat\<close> and the keywords: there is no item for \<open>dog\<close>.
\<close>

theorem cat_cat_dog_end_of_text_omits_dog:
  "snd (resolve asciiOnly (runes ''cat cat dog'') 0 11) = runes ''dog''
   \<and> map Label (reply_items (sent (serve asciiOnly id
        [didOpen_request (runes ''file:///a.py'') (runes ''cat cat dog''),
         completion_request (ID 1 [] False) (runes ''file:///a.py'') 0 11] Map.empty)))
       = runes ''cat'' # defs
   \<and> runes ''dog'' \<notin> set (runes ''cat'' # defs)"
proof -
  let ?a = "runes ''file:///a.py''"
  let ?i = "ID 1 [] False"
  let ?F = "\<lparr>uri = ?a, content = runes ''cat cat dog'',
             words = [(runes ''cat'', 2), (runes ''dog'', 1)]\<rparr>"
  let ?key = "\<lambda>(k, v). new_item k (zero_padded (FormatInt (1000000 - v)) padLen)"
  let ?items = "map ?key (filter (\<lambda>(k, v). k \<noteq> runes ''dog'')
                   ([(runes ''cat'', 2), (runes ''dog'', 1)] @ defaultCompletions))"
  have o: "Handle asciiOnly id (didOpen_request ?a (runes ''cat cat dog'')) Map.empty
      = Some ([], Return [?a \<mapsto> ?F])"
    using Handle_didOpen [of "didOpen_request ?a (runes ''cat cat dog'')" _ ?a
        "runes ''cat cat dog''" asciiOnly id Map.empty]
    by (simp add: didOpen_request_def getWords_cat_cat_dog)
  have e: "Handle asciiOnly id (completion_request ?i ?a 0 11) [?a \<mapsto> ?F]
        = Some ([log (runes ''dog''), Reply ?i (CompletionResp False ?items)],
                Return [?a \<mapsto> ?F])"
    using Handle_completion [of "completion_request ?i ?a 0 11" _ ?a "[?a \<mapsto> ?F]" ?F 0 11
        asciiOnly "[]" "runes ''dog''" id] resolve_cat_cat_dog_end [of asciiOnly]
    by (simp add: completion_request_def leadups_def)
  have "filter (\<lambda>(k, v). k \<noteq> runes ''dog'') defaultCompletions = defaultCompletions"
    using dog_not_keyword by (auto simp: defaultCompletions_eq filter_id_conv)
  then have l: "map Label ?items = runes ''cat'' # defs"
    by (simp add: defaultCompletions_eq new_item_def runes_def comp_def)
  have "sent (serve asciiOnly id
        [didOpen_request ?a (runes ''cat cat dog''), completion_request ?i ?a 0 11] Map.empty)
      = [log (runes ''dog''), Reply ?i (CompletionResp False ?items)]"
    using o e by (simp add: sent_def)
  then show ?thesis
    using l dog_not_keyword resolve_cat_cat_dog_end [of asciiOnly]
    by (simp add: log_def runes_def)
qed

section \<open>Files that are not open\<close>

lemma case_didChange_changes:
  assumes "case_didChange U req fs = Some (effs, Return fs')" and "fs' u \<noteq> fs u"
  shows "\<exists>p. Params req = Some p \<and> textDocument_uri p = Unmarshalled u"
  using assms
  by (auto simp: case_didChange_def getURI_def
      split: sum.splits option.splits unmarshal.splits list.splits prod.splits if_splits)

lemma case_didOpen_changes:
  assumes "case_didOpen U req fs = Some (effs, Return fs')" and "fs' u \<noteq> fs u"
  shows "\<exists>p. Params req = Some p \<and> textDocument_uri p = Unmarshalled u"
  using assms
  by (auto simp: case_didOpen_def getURI_def
      split: sum.splits option.splits unmarshal.splits list.splits prod.splits if_splits)

lemma Handle_changes:
  assumes "Handle U rangeOrder req fs = Some (effs, Return fs')" and "fs' u \<noteq> fs u"
  shows "(Method req = runes ''textDocument/didChange'' \<or>
          Method req = runes ''textDocument/didOpen'') \<and>
         (\<exists>p. Params req = Some p \<and> textDocument_uri p = Unmarshalled u)"
proof -
  consider "fs' = fs"
    | "Method req = runes ''textDocument/didChange''"
      "case_didChange U req fs = Some (effs, Return fs')"
    | "Method req = runes ''textDocument/didOpen''"
      "case_didOpen U req fs = Some (effs, Return fs')"
    using assms(1) case_completion_files [of U rangeOrder req fs effs fs']
    by (auto simp: Handle_def split: if_splits)
  then show ?thesis
  proof cases
    case 1
    then show ?thesis using assms(2) by simp
  next
    case 2
    then show ?thesis using case_didChange_changes assms(2) by blast
  next
    case 3
    then show ?thesis using case_didOpen_changes assms(2) by blast
  qed
qed

text \<open>
  C7.  A completion request whose URI decodes and is not a key of \<open>files\<close> sends the log
  notification \<open>FILE NOT OPEN\<close> and nothing else, neither a result nor an error, and
  returns with \<open>files\<close> as it was.  A URI is absent until it is stored: a call that makes
  an absent URI present is a \<open>didChange\<close> or a \<open>didOpen\<close> that decodes this URI.
\<close>

theorem completion_of_unopened_file:
  "(Method req = runes ''textDocument/completion'' \<and> Params req = Some p \<and>
    textDocument_uri p = Unmarshalled u \<and> fs u = None \<longrightarrow>
      Handle U rangeOrder req fs = Some ([log (runes ''FILE NOT OPEN'')], Return fs))
   \<and> (Handle U rangeOrder req' fs = Some (effs, Return fs') \<and> fs u = None \<and> fs' u \<noteq> None \<longrightarrow>
        (Method req' = runes ''textDocument/didChange'' \<or>
         Method req' = runes ''textDocument/didOpen'') \<and>
        (\<exists>p'. Params req' = Some p' \<and> textDocument_uri p' = Unmarshalled u))"
proof -
  have "Method req = runes ''textDocument/completion'' \<and> Params req = Some p \<and>
    textDocument_uri p = Unmarshalled u \<and> fs u = None \<longrightarrow>
      Handle U rangeOrder req fs = Some ([log (runes ''FILE NOT OPEN'')], Return fs)"
    by (simp add: Handle_def case_completion_def getURI_def runes_def)
  moreover have "Handle U rangeOrder req' fs = Some (effs, Return fs') \<and> fs u = None \<and>
      fs' u \<noteq> None \<longrightarrow>
        (Method req' = runes ''textDocument/didChange'' \<or>
         Method req' = runes ''textDocument/didOpen'') \<and>
        (\<exists>p'. Params req' = Some p' \<and> textDocument_uri p' = Unmarshalled u)"
    using Handle_changes [of U rangeOrder req' fs effs fs' u] by auto
  ultimately show ?thesis by blast
qed

theorem completion_of_unopened_file_witness:
  "Handle asciiOnly id (completion_request (ID 1 [] False) (runes ''file:///a.py'') 0 0) Map.empty
     = Some ([log (runes ''FILE NOT OPEN'')], Return Map.empty)
   \<and> Handle asciiOnly id (didOpen_request (runes ''file:///a.py'') (runes ''x'')) Map.empty
     = Some ([], Return [runes ''file:///a.py'' \<mapsto>
         \<lparr>uri = runes ''file:///a.py'', content = runes ''x'', words = [(runes ''x'', 1)]\<rparr>])
   \<and> Method (didOpen_request (runes ''file:///a.py'') (runes ''x'')) = runes ''textDocument/didOpen''"
proof -
  let ?a = "runes ''file:///a.py''"
  let ?c = "completion_request (ID 1 [] False) ?a 0 0"
  let ?o = "didOpen_request ?a (runes ''x'')"
  let ?fs' = "[?a \<mapsto> \<lparr>uri = ?a, content = runes ''x'', words = [(runes ''x'', 1)]\<rparr>]"
  note T = completion_of_unopened_file
    [of ?c "the (Params ?c)" ?a Map.empty asciiOnly id ?o "[]" ?fs']
  have c: "Handle asciiOnly id ?c Map.empty = Some ([log (runes ''FILE NOT OPEN'')], Return Map.empty)"
    using T by (simp add: completion_request_def)
  have w: "getWords asciiOnly (runes ''x'') = [(runes ''x'', 1)]"
    by (simp add: getWords_def runes_def wordRune_ascii index_Nil assign_def)
  have o: "Handle asciiOnly id ?o Map.empty = Some ([], Return ?fs')"
    using Handle_didOpen [of ?o _ ?a "runes ''x''" asciiOnly id Map.empty] w
    by (simp add: didOpen_request_def)
  have "Method ?o = runes ''textDocument/didOpen''"
    using T o by (auto simp: didOpen_request_def runes_def)
  with c o show ?thesis by simp
qed

end
